theory Spec2Isabelle
  imports
    Complex_Main
    "HOL-Library.AList"
    "HOL-Library.Char_ord"
    "HOL-Library.List_Lexorder"
begin

section \<open>Strings\<close>

text \<open>
  A Python \<open>str\<close> is modelled by its UTF-8 bytes, a \<^typ>\<open>string\<close>. The separators the
  programs split on (\<open>/\<close>, \<open>?\<close>, \<open>%\<close>) are ASCII, and an ASCII byte never occurs inside
  a multi-byte UTF-8 sequence, so splitting the bytes is splitting the code points; the
  byte-wise lexicographic order of \<^typ>\<open>string\<close> is the code point order Python sorts by.
\<close>

text \<open>\<open>s.split(sep)\<close> for a one-character separator: never empty.\<close>

fun split_on :: "char \<Rightarrow> string \<Rightarrow> string list" where
  "split_on sep [] = [[]]"
| "split_on sep (c # cs) =
     (if c = sep then [] # split_on sep cs
      else (case split_on sep cs of
              [] \<Rightarrow> [[c]]
            | part # parts \<Rightarrow> (c # part) # parts))"


subsection \<open>\<open>urllib.parse.unquote\<close>\<close>

text \<open>
  The library function, as CPython defines it: the string is cut into maximal runs of
  ASCII and of non-ASCII characters; each ASCII run is percent-decoded to bytes
  (\<open>unquote_to_bytes\<close>: split at \<open>%\<close>, and every piece after the first that starts
  with two hexadecimal digits has them replaced by the byte they name, any other piece
  keeps its \<open>%\<close>) and the bytes are decoded as UTF-8 with \<open>errors='replace'\<close>; the
  non-ASCII runs are kept. A string without \<open>%\<close> is returned as it is.
\<close>

definition byte :: "char \<Rightarrow> nat" where
  "byte c = of_char c"

definition is_ascii :: "char \<Rightarrow> bool" where
  "is_ascii c = (byte c < 128)"

definition hexdig :: "char \<Rightarrow> bool" where
  "hexdig c = (c \<in> set ''0123456789ABCDEFabcdef'')"

definition hexval :: "char \<Rightarrow> nat" where
  "hexval c = (if byte c < 58 then byte c - 48 else if byte c < 71 then byte c - 55 else byte c - 87)"

fun unquote_item :: "string \<Rightarrow> string" where
  "unquote_item (a # b # rest) =
     (if hexdig a \<and> hexdig b then char_of (16 * hexval a + hexval b) # rest
      else CHR ''%'' # a # b # rest)"
| "unquote_item item = CHR ''%'' # item"

definition unquote_to_bytes :: "string \<Rightarrow> string" where
  "unquote_to_bytes s =
     (let bits = split_on CHR ''%'' s in hd bits @ concat (map unquote_item (tl bits)))"

text \<open>The UTF-8 encoding of U+FFFD, the replacement character.\<close>

definition replacement :: string where
  "replacement = [char_of (239::nat), char_of (191::nat), char_of (189::nat)]"

definition continuation :: "char \<Rightarrow> bool" where
  "continuation c = (128 \<le> byte c \<and> byte c < 192)"

text \<open>
  The second byte a lead byte \<open>c\<close> refuses although it is a continuation byte: overlong
  forms (\<open>E0\<close>, \<open>F0\<close>), surrogates (\<open>ED\<close>) and code points beyond U+10FFFF (\<open>F4\<close>).
\<close>

definition bad_second3 :: "char \<Rightarrow> char \<Rightarrow> bool" where
  "bad_second3 c c2 =
     (\<not> continuation c2 \<or> (if byte c2 < 160 then byte c = 224 else byte c = 237))"

definition bad_second4 :: "char \<Rightarrow> char \<Rightarrow> bool" where
  "bad_second4 c c2 =
     (\<not> continuation c2 \<or> (if byte c2 < 144 then byte c = 240 else byte c = 244))"

text \<open>
  \<open>bytes.decode('utf-8', 'replace')\<close> seen on the bytes: a well-formed sequence is kept;
  an invalid start byte, a sequence cut by an invalid continuation byte (the bytes before
  it) and a sequence cut by the end of the input each become one replacement character,
  and decoding resumes at the offending byte.
\<close>

fun utf8_replace :: "string \<Rightarrow> string" where
  "utf8_replace [] = []"
| "utf8_replace (c # s) =
     (if byte c < 128 then c # utf8_replace s
      else if byte c < 194 then replacement @ utf8_replace s
      else if byte c < 224 then
        (case s of
           [] \<Rightarrow> replacement
         | c2 # s2 \<Rightarrow>
             if continuation c2 then c # c2 # utf8_replace s2
             else replacement @ utf8_replace s)
      else if byte c < 240 then
        (case s of
           [] \<Rightarrow> replacement
         | c2 # s2 \<Rightarrow>
             if bad_second3 c c2 then replacement @ utf8_replace s
             else
               (case s2 of
                  [] \<Rightarrow> replacement
                | c3 # s3 \<Rightarrow>
                    if continuation c3 then c # c2 # c3 # utf8_replace s3
                    else replacement @ utf8_replace s2))
      else if byte c < 245 then
        (case s of
           [] \<Rightarrow> replacement
         | c2 # s2 \<Rightarrow>
             if bad_second4 c c2 then replacement @ utf8_replace s
             else
               (case s2 of
                  [] \<Rightarrow> replacement
                | c3 # s3 \<Rightarrow>
                    if \<not> continuation c3 then replacement @ utf8_replace s2
                    else
                      (case s3 of
                         [] \<Rightarrow> replacement
                       | c4 # s4 \<Rightarrow>
                           if continuation c4 then c # c2 # c3 # c4 # utf8_replace s4
                           else replacement @ utf8_replace s3)))
      else replacement @ utf8_replace s)"

function unquote_parts :: "string \<Rightarrow> string" where
  "unquote_parts s =
     (if s = [] then []
      else
        utf8_replace (unquote_to_bytes (takeWhile is_ascii s))
        @ takeWhile (\<lambda>c. \<not> is_ascii c) (dropWhile is_ascii s)
        @ unquote_parts (dropWhile (\<lambda>c. \<not> is_ascii c) (dropWhile is_ascii s)))"
  by pat_completeness auto

lemma dropWhile_both_shorter:
  "s \<noteq> [] \<Longrightarrow> length (dropWhile (\<lambda>c. \<not> P c) (dropWhile P s)) < length s"
proof (cases s)
  case Nil
  assume "s \<noteq> []"
  with Nil show ?thesis by simp
next
  case (Cons c cs)
  show ?thesis
  proof (cases "P c")
    case True
    have "length (dropWhile (\<lambda>c. \<not> P c) (dropWhile P cs)) \<le> length (dropWhile P cs)"
      by (rule length_dropWhile_le)
    also have "\<dots> \<le> length cs" by (rule length_dropWhile_le)
    finally show ?thesis using Cons True by simp
  next
    case False
    have "length (dropWhile (\<lambda>c. \<not> P c) cs) \<le> length cs" by (rule length_dropWhile_le)
    then show ?thesis using Cons False by simp
  qed
qed

termination unquote_parts
  by (relation "measure length") (simp_all add: dropWhile_both_shorter)

declare unquote_parts.simps [simp del]

definition unquote :: "string \<Rightarrow> string" where
  "unquote s = (if CHR ''%'' \<notin> set s then s else unquote_parts s)"

section \<open>JSON values as Python reads them\<close>

text \<open>
  \<open>json.load\<close> yields \<open>None\<close>, \<open>bool\<close>, \<open>int\<close>, \<open>float\<close>, \<open>str\<close>, \<open>list\<close> and
  \<open>dict\<close>. A \<open>dict\<close> keeps its keys in insertion order and \<open>json.dump\<close> writes them
  in that order, so an object is an association list (with distinct keys when it comes
  from \<open>json.load\<close>). Integers are unbounded. A float is kept as the number it denotes:
  the programs compare floats and print them, and never compute with them.
\<close>

datatype pyfloat = NaN | Inf bool | NegZero | Fin rat

datatype json =
    JNull
  | JBool bool
  | JInt int
  | JFloat pyfloat
  | JStr string
  | JArr "json list"
  | JObj "(string \<times> json) list"

datatype error = KeyError | TypeError | AttributeError | OverflowError | LoadError

subsection \<open>Python's \<open>==\<close> on these values\<close>

text \<open>
  \<open>bool\<close> is a subclass of \<open>int\<close> and numbers compare by value across \<open>int\<close> and
  \<open>float\<close> (\<open>True == 1\<close>, \<open>1 == 1.0\<close>, \<open>0.0 == -0.0\<close>), \<open>nan\<close> equals nothing.
\<close>

datatype number = Undefined | Infinite bool | Finite rat

fun number_of :: "json \<Rightarrow> number option" where
  "number_of (JBool b) = Some (Finite (if b then 1 else 0))"
| "number_of (JInt i) = Some (Finite (of_int i))"
| "number_of (JFloat NaN) = Some Undefined"
| "number_of (JFloat (Inf positive)) = Some (Infinite positive)"
| "number_of (JFloat NegZero) = Some (Finite 0)"
| "number_of (JFloat (Fin q)) = Some (Finite q)"
| "number_of _ = None"

text \<open>
  Containers compare their elements with \<open>x is y or x == y\<close>. Two values read from two
  documents are never the same object unless they are equal anyway, but for \<open>nan\<close>:
  \<open>json.load\<close> returns the one object \<open>json.decoder.NaN\<close> for every \<open>NaN\<close> it reads.
\<close>

definition same_object :: "json \<Rightarrow> json \<Rightarrow> bool" where
  "same_object a b = (a = JFloat NaN \<and> b = JFloat NaN)"

fun py_eq :: "json \<Rightarrow> json \<Rightarrow> bool"
  and py_eq_items :: "json list \<Rightarrow> json list \<Rightarrow> bool"
  and py_eq_fields :: "(string \<times> json) list \<Rightarrow> (string \<times> json) list \<Rightarrow> bool"
where
  "py_eq JNull b = (b = JNull)"
| "py_eq (JStr s) b = (b = JStr s)"
| "py_eq (JArr xs) b = (case b of JArr ys \<Rightarrow> py_eq_items xs ys | _ \<Rightarrow> False)"
| "py_eq (JObj ps) b =
     (case b of JObj qs \<Rightarrow> length ps = length qs \<and> py_eq_fields ps qs | _ \<Rightarrow> False)"
| "py_eq (JBool x) b =
     (case number_of b of None \<Rightarrow> False | Some n \<Rightarrow> n = Finite (if x then 1 else 0))"
| "py_eq (JInt i) b =
     (case number_of b of None \<Rightarrow> False | Some n \<Rightarrow> n = Finite (of_int i))"
| "py_eq (JFloat x) b =
     (case number_of b of
        None \<Rightarrow> False
      | Some n \<Rightarrow> n \<noteq> Undefined \<and> number_of (JFloat x) = Some n)"
| "py_eq_items [] ys = (ys = [])"
| "py_eq_items (x # xs) ys =
     (case ys of
        [] \<Rightarrow> False
      | y # ys' \<Rightarrow> (same_object x y \<or> py_eq x y) \<and> py_eq_items xs ys')"
| "py_eq_fields [] qs = True"
| "py_eq_fields ((k, v) # ps) qs =
     (case map_of qs k of
        None \<Rightarrow> False
      | Some w \<Rightarrow> (same_object v w \<or> py_eq v w) \<and> py_eq_fields ps qs)"

definition py_ne :: "json \<Rightarrow> json \<Rightarrow> bool" where
  "py_ne a b = (\<not> py_eq a b)"

subsection \<open>Subscripts, \<open>dict.get\<close>, item assignment, iteration\<close>

text \<open>\<open>v[key]\<close> with a string key: only a \<open>dict\<close> takes one.\<close>

fun subscript :: "json \<Rightarrow> string \<Rightarrow> error + json" where
  "subscript (JObj fields) key =
     (case map_of fields key of None \<Rightarrow> Inl KeyError | Some v \<Rightarrow> Inr v)"
| "subscript _ key = Inl TypeError"

text \<open>\<open>d.get(key, default)\<close> on the fields of a \<open>dict\<close>.\<close>

definition get :: "(string \<times> json) list \<Rightarrow> string \<Rightarrow> json \<Rightarrow> json" where
  "get fields key dflt = (case map_of fields key of None \<Rightarrow> dflt | Some v \<Rightarrow> v)"

text \<open>
  \<open>d[key] = v\<close>: an existing key keeps its place, a new key goes last
  (\<^const>\<open>AList.update\<close>).
\<close>

definition setitem :: "(string \<times> json) list \<Rightarrow> string \<Rightarrow> json \<Rightarrow> (string \<times> json) list" where
  "setitem fields key v = AList.update key v fields"

text \<open>
  \<open>for x in v\<close>: a list gives its elements, a \<open>dict\<close> its keys, a string its characters
  (here one string per byte: the programs only ever subscript such an element, which
  raises whatever the character is); nothing else is iterable.
\<close>

fun iterate :: "json \<Rightarrow> error + json list" where
  "iterate (JArr xs) = Inr xs"
| "iterate (JObj fields) = Inr (map (\<lambda>(k, v). JStr k) fields)"
| "iterate (JStr s) = Inr (map (\<lambda>c. JStr [c]) s)"
| "iterate _ = Inl TypeError"

section \<open>The Catalog Updater (\<open>update-catalog-counts.py\<close>)\<close>

subsection \<open>The lookup key of a download URL (lines 40 to 45)\<close>

definition derive_filename :: "string \<Rightarrow> string" where
  "derive_filename url =
     (let filename = hd (split_on CHR ''?'' (last (split_on CHR ''/'' url)));
          filename = unquote filename;
          filename = last (split_on CHR ''/'' filename)
      in filename)"

text \<open>\<open>url.split\<close> is an attribute of \<open>str\<close> only.\<close>

fun url_filename :: "json \<Rightarrow> error + string" where
  "url_filename (JStr url) = Inr (derive_filename url)"
| "url_filename _ = Inl AttributeError"

subsection \<open>The count mapping (line 29)\<close>

type_synonym count_map = "string \<rightharpoonup> json \<times> json"

text \<open>
  One item of the comprehension: the key \<open>item['file']\<close>, then the two values, then the
  insertion, which hashes the key. A later item overwrites an earlier one with the same
  file name. A key that is hashable and not a string is stored by Python under a key no
  file name is equal to, so the mapping from file names is as before.
\<close>

fun add_item :: "count_map \<Rightarrow> json \<Rightarrow> error + count_map" where
  "add_item count_map (JObj fields) =
     (case map_of fields ''file'' of
        None \<Rightarrow> Inl KeyError
      | Some file \<Rightarrow>
          (case map_of fields ''count'' of
             None \<Rightarrow> Inl KeyError
           | Some count_value \<Rightarrow>
               (case map_of fields ''size'' of
                  None \<Rightarrow> Inl KeyError
                | Some size_value \<Rightarrow>
                    (case file of
                       JStr name \<Rightarrow> Inr (count_map(name \<mapsto> (count_value, size_value)))
                     | JArr _ \<Rightarrow> Inl TypeError
                     | JObj _ \<Rightarrow> Inl TypeError
                     | _ \<Rightarrow> Inr count_map))))"
| "add_item count_map _ = Inl TypeError"

fun build_count_map :: "count_map \<Rightarrow> json list \<Rightarrow> error + count_map" where
  "build_count_map count_map [] = Inr count_map"
| "build_count_map count_map (item # items) =
     (case add_item count_map item of
        Inl e \<Rightarrow> Inl e
      | Inr count_map' \<Rightarrow> build_count_map count_map' items)"

subsection \<open>Console output\<close>

text \<open>
  One constructor per \<open>print\<close> of the source, with the values it formats. The sizes of
  a \<open>SizeChanged\<close> line are the byte counts: the text shows them divided by \<open>1024 * 1024\<close>
  with one decimal, a float the model does not compute.
\<close>

datatype message =
    CountsNotFound
  | RunCounterFirst
  | CatalogNotFound
  | DeckChanged json
  | CardsChanged json json
  | SizeChanged json json
  | Updated nat
  | NextDeploy
  | AlreadyAccurate

text \<open>
  \<open>x / (1024 * 1024)\<close>, the only arithmetic on a document's value: whether it raises.
  \<open>None\<close>, strings, lists and dicts do not divide. An \<open>int\<close> divides exactly, rounded to
  the nearest double, and the division raises when that double would be \<open>2 ^ 1024\<close> or
  more; a float divides without raising.
\<close>

fun true_div_raises :: "json \<Rightarrow> error option" where
  "true_div_raises (JInt n) =
     (if 2 ^ 1044 - 2 ^ 990 \<le> \<bar>n\<bar> then Some OverflowError else None)"
| "true_div_raises (JBool b) = None"
| "true_div_raises (JFloat x) = None"
| "true_div_raises _ = Some TypeError"

subsection \<open>One catalog entry (the loop body, lines 38 to 64)\<close>

text \<open>
  A step prints, and then either raises or yields a value: what was printed is kept in
  both cases.
\<close>

type_synonym 'a run = "message list \<times> (error + 'a)"

text \<open>Lines 55 to 64, entered when the entry differs: the prints, then the two assignments.\<close>

definition report_and_store ::
  "(string \<times> json) list \<Rightarrow> json \<Rightarrow> json \<Rightarrow> json \<Rightarrow> json \<Rightarrow> json run" where
  "report_and_store deck old_count old_size new_count new_size =
     (case map_of deck ''name'' of
        None \<Rightarrow> ([], Inl KeyError)
      | Some name \<Rightarrow>
          (let cards = (if py_ne old_count new_count
                        then [CardsChanged old_count new_count] else []);
               stored = JObj (setitem (setitem deck ''cardCount'' new_count) ''size'' new_size)
           in if py_ne old_size new_size then
                (case true_div_raises old_size of
                   Some e \<Rightarrow> (DeckChanged name # cards, Inl e)
                 | None \<Rightarrow>
                     (case true_div_raises new_size of
                        Some e \<Rightarrow> (DeckChanged name # cards, Inl e)
                      | None \<Rightarrow>
                          (DeckChanged name # cards @ [SizeChanged old_size new_size],
                           Inr stored)))
              else (DeckChanged name # cards, Inr stored)))"

text \<open>The entry after the step, and whether it was counted (\<open>updated += 1\<close>).\<close>

fun update_deck :: "count_map \<Rightarrow> json \<Rightarrow> (json \<times> bool) run" where
  "update_deck count_map (JObj deck) =
     (case map_of deck ''downloadUrl'' of
        None \<Rightarrow> ([], Inl KeyError)
      | Some url \<Rightarrow>
          (case url_filename url of
             Inl e \<Rightarrow> ([], Inl e)
           | Inr filename \<Rightarrow>
               (case count_map filename of
                  None \<Rightarrow> ([], Inr (JObj deck, False))
                | Some (new_count, new_size) \<Rightarrow>
                    (let old_count = get deck ''cardCount'' (JInt 0);
                         old_size = get deck ''size'' (JInt 0)
                     in if py_ne old_count new_count \<or> py_ne old_size new_size then
                          (case report_and_store deck old_count old_size new_count new_size of
                             (out, Inl e) \<Rightarrow> (out, Inl e)
                           | (out, Inr deck') \<Rightarrow> (out, Inr (deck', True)))
                        else ([], Inr (JObj deck, False))))))"
| "update_deck count_map _ = ([], Inl TypeError)"

text \<open>The loop of line 37 over the entries still to come, \<open>updated\<close> being the count so far.\<close>

fun update_decks :: "count_map \<Rightarrow> json list \<Rightarrow> nat \<Rightarrow> (json list \<times> nat) run" where
  "update_decks count_map [] updated = ([], Inr ([], updated))"
| "update_decks count_map (deck # decks) updated =
     (case update_deck count_map deck of
        (out, Inl e) \<Rightarrow> (out, Inl e)
      | (out, Inr (deck', changed)) \<Rightarrow>
          (case update_decks count_map decks (if changed then updated + 1 else updated) of
             (out', Inl e) \<Rightarrow> (out @ out', Inl e)
           | (out', Inr (decks', n)) \<Rightarrow> (out @ out', Inr (deck' # decks', n))))"

subsection \<open>The files and \<open>main\<close>\<close>

text \<open>
  The two fixed paths. A file is absent, or present and not loadable (\<open>open\<close> or
  \<open>json.load\<close> raises), or holds a document. \<open>json.dump\<close> followed by \<open>json.load\<close> gives
  back the value that was dumped, so a file holds the value itself.
\<close>

datatype file_state = Absent | Unreadable | Document json

record files =
  counts_file :: file_state
  catalog_file :: file_state

text \<open>
  What a run did: the lines printed, the exception it ended with if any, and the
  documents it wrote to the catalog path, in order.
\<close>

record outcome =
  printed :: "message list"
  raised :: "error option"
  written :: "json list"

definition finish :: "message list \<Rightarrow> outcome" where
  "finish out = \<lparr>printed = out, raised = None, written = []\<rparr>"

definition raise :: "message list \<Rightarrow> error \<Rightarrow> outcome" where
  "raise out e = \<lparr>printed = out, raised = Some e, written = []\<rparr>"

text \<open>
  The loop assigns into the entries it iterates over. When \<open>catalog['decks']\<close> is a
  list these are the catalog's own entries; the keys of a \<open>dict\<close> and the characters of
  a string are not part of the catalog.
\<close>

fun catalog_with :: "(string \<times> json) list \<Rightarrow> json \<Rightarrow> json list \<Rightarrow> json" where
  "catalog_with catalog (JArr _) decks' = JObj (AList.update ''decks'' (JArr decks') catalog)"
| "catalog_with catalog _ decks' = JObj catalog"

definition reconcile :: "count_map \<Rightarrow> json \<Rightarrow> outcome" where
  "reconcile count_map catalog =
     (case catalog of
        JObj members \<Rightarrow>
          (case map_of members ''decks'' of
             None \<Rightarrow> raise [] KeyError
           | Some decks_value \<Rightarrow>
               (case iterate decks_value of
                  Inl e \<Rightarrow> raise [] e
                | Inr decks \<Rightarrow>
                    (case update_decks count_map decks 0 of
                       (out, Inl e) \<Rightarrow> raise out e
                     | (out, Inr (decks', updated)) \<Rightarrow>
                         if updated > 0 then
                           \<lparr>printed = out @ [Updated updated, NextDeploy], raised = None,
                            written = [catalog_with members decks_value decks']\<rparr>
                         else finish (out @ [AlreadyAccurate]))))
      | _ \<Rightarrow> raise [] TypeError)"

definition updater_main :: "files \<Rightarrow> outcome" where
  "updater_main fs =
     (if counts_file fs = Absent then finish [CountsNotFound, RunCounterFirst]
      else if catalog_file fs = Absent then finish [CatalogNotFound]
      else
        (case counts_file fs of
           Document actual_counts \<Rightarrow>
             (case iterate actual_counts of
                Inl e \<Rightarrow> raise [] e
              | Inr items \<Rightarrow>
                  (case build_count_map Map.empty items of
                     Inl e \<Rightarrow> raise [] e
                   | Inr count_map \<Rightarrow>
                       (case catalog_file fs of
                          Document catalog \<Rightarrow> reconcile count_map catalog
                        | _ \<Rightarrow> raise [] LoadError)))
         | _ \<Rightarrow> raise [] LoadError))"

text \<open>The files after a run.\<close>

definition files_after :: "files \<Rightarrow> outcome \<Rightarrow> files" where
  "files_after fs result =
     (case written result of
        [] \<Rightarrow> fs
      | _ # _ \<Rightarrow> fs\<lparr>catalog_file := Document (last (written result))\<rparr>)"

section \<open>The Archive Counter (\<open>get-card-counts.py\<close>)\<close>

subsection \<open>\<open>os.path\<close> on POSIX\<close>




subsection \<open>What the program sees of the machine\<close>




subsection \<open>\<open>get_card_count\<close>\<close>



subsection \<open>\<open>main\<close>\<close>









section \<open>Notions the properties are stated with\<close>

subsection \<open>Archive Counter\<close>





subsection \<open>Catalog Updater\<close>

text \<open>The part of a string after its last separator, and the part before its first.\<close>

definition after_last :: "char \<Rightarrow> string \<Rightarrow> string" where
  "after_last sep s = rev (takeWhile (\<lambda>c. c \<noteq> sep) (rev s))"

definition before_first :: "char \<Rightarrow> string \<Rightarrow> string" where
  "before_first sep s = takeWhile (\<lambda>c. c \<noteq> sep) s"

text \<open>The \<open>decks\<close> sequence of a catalog document.\<close>

definition decks_of :: "json \<Rightarrow> json list" where
  "decks_of catalog =
     (case catalog of
        JObj members \<Rightarrow>
          (case map_of members ''decks'' of Some (JArr decks) \<Rightarrow> decks | _ \<Rightarrow> [])
      | _ \<Rightarrow> [])"

text \<open>A catalog document without its \<open>decks\<close> member: everything else it holds.\<close>

fun without_decks :: "json \<Rightarrow> json" where
  "without_decks (JObj members) = JObj (filter (\<lambda>(k, v). k \<noteq> ''decks'') members)"
| "without_decks v = v"

text \<open>An entry without its \<open>cardCount\<close> and \<open>size\<close> fields: every other field, in order.\<close>

fun without_counts :: "json \<Rightarrow> json" where
  "without_counts (JObj members) =
     JObj (filter (\<lambda>(k, v). k \<noteq> ''cardCount'' \<and> k \<noteq> ''size'') members)"
| "without_counts v = v"

text \<open>The lookup key of an entry: the file name derived from its download URL.\<close>

definition lookup_key :: "json \<Rightarrow> string option" where
  "lookup_key deck =
     (case deck of
        JObj members \<Rightarrow>
          (case map_of members ''downloadUrl'' of
             Some (JStr url) \<Rightarrow> Some (derive_filename url)
           | _ \<Rightarrow> None)
      | _ \<Rightarrow> None)"

text \<open>
  The count mapping of a results document: from the file name of a record to its count
  and size, a later record replacing an earlier one of the same file name.
\<close>

fun item_entry :: "json \<Rightarrow> (string \<times> json \<times> json) list" where
  "item_entry (JObj members) =
     (case (map_of members ''file'', map_of members ''count'', map_of members ''size'') of
        (Some (JStr name), Some count_value, Some size_value) \<Rightarrow>
          [(name, (count_value, size_value))]
      | _ \<Rightarrow> [])"
| "item_entry v = []"

definition count_mapping :: "json \<Rightarrow> count_map" where
  "count_mapping counts =
     (case counts of
        JArr items \<Rightarrow> map_of (rev (concat (map item_entry items)))
      | _ \<Rightarrow> Map.empty)"

text \<open>The file names of the records of a results document.\<close>

fun record_file :: "json \<Rightarrow> string list" where
  "record_file (JObj members) =
     (case map_of members ''file'' of Some (JStr name) \<Rightarrow> [name] | _ \<Rightarrow> [])"
| "record_file v = []"

definition result_files :: "json \<Rightarrow> string list" where
  "result_files counts =
     (case counts of JArr items \<Rightarrow> concat (map record_file items) | _ \<Rightarrow> [])"

text \<open>The entry's derived file name is the file name of a record of the results document.\<close>

definition matches :: "json \<Rightarrow> json \<Rightarrow> bool" where
  "matches counts deck =
     (case lookup_key deck of
        Some name \<Rightarrow> name \<in> set (result_files counts)
      | None \<Rightarrow> False)"

text \<open>The stored value of a field of an entry, 0 when the entry has no such field.\<close>

definition stored :: "json \<Rightarrow> string \<Rightarrow> json" where
  "stored deck key =
     (case deck of
        JObj members \<Rightarrow> (case map_of members key of Some v \<Rightarrow> v | None \<Rightarrow> JInt 0)
      | _ \<Rightarrow> JInt 0)"

text \<open>
  The entry's file name is in the count mapping and its stored card count or its stored
  size differs from the value looked up.
\<close>

definition differs :: "count_map \<Rightarrow> json \<Rightarrow> bool" where
  "differs count_map deck =
     (case lookup_key deck of
        None \<Rightarrow> False
      | Some name \<Rightarrow>
          (case count_map name of
             None \<Rightarrow> False
           | Some (new_count, new_size) \<Rightarrow>
               py_ne (stored deck ''cardCount'') new_count
               \<or> py_ne (stored deck ''size'') new_size))"

text \<open>The entry with \<open>cardCount\<close> and \<open>size\<close> overwritten by the values looked up.\<close>

definition overwritten :: "count_map \<Rightarrow> json \<Rightarrow> json" where
  "overwritten count_map deck =
     (case deck of
        JObj members \<Rightarrow>
          (case lookup_key deck of
             None \<Rightarrow> deck
           | Some name \<Rightarrow>
               (case count_map name of
                  None \<Rightarrow> deck
                | Some (new_count, new_size) \<Rightarrow>
                    JObj (AList.update ''size'' new_size
                            (AList.update ''cardCount'' new_count members))))
      | _ \<Rightarrow> deck)"

definition reconciled :: "count_map \<Rightarrow> json \<Rightarrow> json" where
  "reconciled count_map deck =
     (if differs count_map deck then overwritten count_map deck else deck)"







section \<open>Example inputs\<close>



text \<open>
  The scenario of the specification: a results document with the record of
  \<open>French.apkg\<close>, and a catalog whose first entry has that file behind its download URL
  and whose second entry has a file the results document does not know.
\<close>

definition french_counts :: json where
  "french_counts =
     JArr [JObj [(''folder'', JStr ''Languages''), (''file'', JStr ''French.apkg''),
                 (''path'', JStr ''Languages/French.apkg''), (''count'', JInt 1200),
                 (''size'', JInt 5242880)]]"

definition french_catalog :: json where
  "french_catalog =
     JObj [(''version'', JInt 2),
           (''decks'',
            JArr [JObj [(''id'', JStr ''fr''), (''name'', JStr ''French''),
                        (''downloadUrl'',
                         JStr ''https://storage.example.com/v0/b/decks/o/French.apkg?token=x''),
                        (''cardCount'', JInt 1000), (''size'', JInt 4000000),
                        (''tags'', JArr [JStr ''language''])],
                  JObj [(''id'', JStr ''es''), (''name'', JStr ''Spanish''),
                        (''downloadUrl'',
                         JStr ''https://storage.example.com/v0/b/decks/o/Spanish.apkg''),
                        (''cardCount'', JInt 800), (''size'', JInt 3000000)]])]"

definition french_files :: files where
  "french_files =
     \<lparr>counts_file = Document french_counts, catalog_file = Document french_catalog\<rparr>"


section \<open>Properties of the Archive Counter\<close>























section \<open>Properties of the Catalog Updater\<close>

lemma split_on_not_empty: "split_on sep s \<noteq> []"
  by (induction s) (auto split: list.split)

lemma hd_split_on: "hd (split_on sep s) = before_first sep s"
  by (induction s) (auto simp: before_first_def split_on_not_empty split: list.split)

lemma split_on_no_sep: "sep \<notin> set s \<Longrightarrow> split_on sep s = [s]"
  by (induction s) auto

lemma split_on_sep_parts: "sep \<in> set s \<Longrightarrow> tl (split_on sep s) \<noteq> []"
  by (induction s) (auto simp: split_on_not_empty split: list.split)

lemma takeWhile_rev_no_sep:
  "sep \<notin> set t \<Longrightarrow> takeWhile (\<lambda>c. c \<noteq> sep) (rev t) = rev t"
  by (rule takeWhile_eq_all_conv [THEN iffD2]) auto

lemma after_last_no_sep: "sep \<notin> set t \<Longrightarrow> after_last sep t = t"
  by (simp add: after_last_def takeWhile_rev_no_sep)

lemma after_last_Cons:
  "after_last sep (c # cs) = (if sep \<in> set cs \<or> c = sep then after_last sep cs else c # cs)"
proof (cases "sep \<in> set cs")
  case True
  then obtain x where "x \<in> set (rev cs)" "\<not> x \<noteq> sep" by auto
  then have "takeWhile (\<lambda>c. c \<noteq> sep) (rev cs @ [c]) = takeWhile (\<lambda>c. c \<noteq> sep) (rev cs)"
    by (rule takeWhile_append1)
  with True show ?thesis by (simp add: after_last_def)
next
  case False
  then have "\<And>x. x \<in> set (rev cs) \<Longrightarrow> x \<noteq> sep" by auto
  then have "takeWhile (\<lambda>c. c \<noteq> sep) (rev cs @ [c]) = rev cs @ takeWhile (\<lambda>c. c \<noteq> sep) [c]"
    by (rule takeWhile_append2)
  then show ?thesis
    using False by (simp add: after_last_def takeWhile_rev_no_sep)
qed

lemma last_split_on: "last (split_on sep s) = after_last sep s"
proof (induction s)
  case Nil
  show ?case by (simp add: after_last_def)
next
  case (Cons c cs)
  show ?case
  proof (cases "c = sep")
    case True
    then show ?thesis
      using Cons by (simp add: after_last_Cons split_on_not_empty)
  next
    case False
    show ?thesis
    proof (cases "sep \<in> set cs")
      case True
      obtain part parts where p: "split_on sep cs = part # parts"
        using split_on_not_empty [of sep cs] by (cases "split_on sep cs") auto
      with split_on_sep_parts [OF True] have "parts \<noteq> []" by simp
      then show ?thesis
        using Cons p False True by (simp add: after_last_Cons)
    next
      case no: False
      then show ?thesis
        using False by (simp add: after_last_Cons split_on_no_sep)
    qed
  qed
qed

lemma after_last_append:
  "sep \<notin> set t \<Longrightarrow> after_last sep (s @ sep # t) = t"
  by (simp add: after_last_def takeWhile_tail takeWhile_rev_no_sep)

text \<open>
  C5. The lookup key of a download URL is the part after the last \<open>/\<close>, cut before its
  first \<open>?\<close>, percent-decoded, and of the result the part after the last \<open>/\<close>. So a URL
  ending in \<open>/My%20Deck.apkg?alt=media\<close> and a URL ending in \<open>/My Deck.apkg\<close> both have
  the key \<open>My Deck.apkg\<close>.
\<close>

theorem derive_filename_steps:
  "derive_filename url =
     after_last CHR ''/'' (unquote (before_first CHR ''?'' (after_last CHR ''/'' url)))
   \<and> derive_filename (prefix @ ''/My%20Deck.apkg?alt=media'') = ''My Deck.apkg''
   \<and> derive_filename (prefix' @ ''/My Deck.apkg'') = ''My Deck.apkg''"
proof -
  have a: "derive_filename u =
     after_last CHR ''/'' (unquote (before_first CHR ''?'' (after_last CHR ''/'' u)))" for u
    by (simp add: derive_filename_def Let_def hd_split_on last_split_on)
  have b: "after_last CHR ''/'' (prefix @ ''/My%20Deck.apkg?alt=media'') = ''My%20Deck.apkg?alt=media''"
    using after_last_append [of "CHR ''/''" "''My%20Deck.apkg?alt=media''" prefix] by simp
  have c: "after_last CHR ''/'' (prefix' @ ''/My Deck.apkg'') = ''My Deck.apkg''"
    using after_last_append [of "CHR ''/''" "''My Deck.apkg''" prefix'] by simp
  have d: "after_last CHR ''/'' (unquote (before_first CHR ''?'' ''My%20Deck.apkg?alt=media'')) = ''My Deck.apkg''"
    by code_simp
  have e: "after_last CHR ''/'' (unquote (before_first CHR ''?'' ''My Deck.apkg'')) = ''My Deck.apkg''"
    by code_simp
  show ?thesis
    using a [of url] by (simp only: a b c d e simp_thms)
qed

subsection \<open>The loop against the notions above\<close>

theorem derive_filename_steps_witness:
  "derive_filename ''https://storage.example.com/v0/b/decks/o/My%20Deck.apkg?alt=media'' =
     ''My Deck.apkg''
   \<and> derive_filename ''https://storage.example.com/v0/b/decks/o/My Deck.apkg'' =
     ''My Deck.apkg''"
  using derive_filename_steps
    [of "[]" "''https://storage.example.com/v0/b/decks/o''"
          "''https://storage.example.com/v0/b/decks/o''"]
  by simp

lemma update_deck_reconciled:
  assumes "update_deck cm d = (out, Inr (d', changed))"
  shows "changed = differs cm d \<and> d' = reconciled cm d \<and> (\<not> changed \<longrightarrow> out = [])"
proof (cases d)
  case (JObj deck)
  show ?thesis
  proof (cases "map_of deck ''downloadUrl''")
    case None
    with assms JObj show ?thesis by simp
  next
    case (Some url)
    note du = Some
    show ?thesis
    proof (cases url)
      case (JStr u)
      show ?thesis
      proof (cases "cm (derive_filename u)")
        case None
        with assms JObj du JStr show ?thesis
          by (auto simp: differs_def reconciled_def lookup_key_def)
      next
        case (Some cs)
        note Some2 = Some
        obtain c s where cs: "cs = (c, s)" by (cases cs)
        have k: "lookup_key d = Some (derive_filename u)"
          using JObj du JStr by (simp add: lookup_key_def)
        have st: "stored d key = get deck key (JInt 0)" for key
          using JObj by (simp add: stored_def get_def split: option.split)
        have df: "differs cm d = (py_ne (get deck ''cardCount'' (JInt 0)) c
                    \<or> py_ne (get deck ''size'' (JInt 0)) s)"
          using k Some2 cs by (simp add: differs_def st)
        have ow: "overwritten cm d =
            JObj (setitem (setitem deck ''cardCount'' c) ''size'' s)"
          using JObj k Some2 cs by (simp add: overwritten_def setitem_def)
        show ?thesis
        proof (cases "differs cm d")
          case True
          have "d' = JObj (setitem (setitem deck ''cardCount'' c) ''size'' s) \<and> changed"
            using assms JObj du JStr Some2 cs True [unfolded df]
            by (auto simp: Let_def report_and_store_def
                split: option.splits if_splits prod.splits sum.splits)
          with True ow show ?thesis by (simp add: reconciled_def)
        next
          case False
          with assms JObj du JStr Some2 cs df show ?thesis
            by (auto simp: Let_def reconciled_def)
        qed
      qed
    qed (use assms JObj du in simp_all)
  qed
qed (use assms in simp_all)

lemma update_decks_reconciled:
  "update_decks cm ds n = (out, Inr (ds', n')) \<Longrightarrow>
     ds' = map (reconciled cm) ds \<and> n' = n + length (filter (differs cm) ds)
     \<and> (n' = n \<longrightarrow> out = [])"
proof (induction ds arbitrary: n out ds' n')
  case Nil
  then show ?case by simp
next
  case (Cons d ds)
  from Cons.prems obtain o1 d1 ch where s1: "update_deck cm d = (o1, Inr (d1, ch))"
    by (auto split: prod.splits sum.splits)
  with Cons.prems obtain o2 ds2 where
    s2: "update_decks cm ds (if ch then n + 1 else n) = (o2, Inr (ds2, n'))"
    and r: "out = o1 @ o2" "ds' = d1 # ds2"
    by (auto split: prod.splits sum.splits)
  note a = update_deck_reconciled [OF s1]
  note b = Cons.IH [OF s2]
  show ?case using a b r by (auto split: if_splits)
qed

lemma add_item_entry:
  "add_item m item = Inr m' \<Longrightarrow> m' = m ++ map_of (item_entry item)"
  by (cases item)
     (auto split: option.splits json.splits)

lemma build_count_map_entries:
  "build_count_map m items = Inr cm \<Longrightarrow>
     cm = m ++ map_of (rev (concat (map item_entry items)))"
proof (induction items arbitrary: m)
  case Nil
  then show ?case by simp
next
  case (Cons item items)
  from Cons.prems obtain m1 where a: "add_item m item = Inr m1"
    and b: "build_count_map m1 items = Inr cm"
    by (auto split: sum.splits)
  have e: "rev (item_entry item) = item_entry item"
    by (cases item) (auto split: option.splits json.splits)
  show ?case
    using Cons.IH [OF b] add_item_entry [OF a]
    by (simp add: e)
qed

lemma add_item_string: "add_item m (JStr s) = Inl TypeError"
  by simp

lemma count_map_of_document:
  assumes "iterate counts = Inr items" "build_count_map Map.empty items = Inr cm"
  shows "cm = count_mapping counts"
proof (cases counts)
  case (JArr xs)
  with assms show ?thesis
    using build_count_map_entries [of Map.empty items cm]
    by (simp add: count_mapping_def)
next
  case (JObj ms)
  with assms have "ms = []" by (cases ms) (auto split: prod.splits)
  with assms JObj show ?thesis by (simp add: count_mapping_def)
next
  case (JStr s)
  with assms have "s = []" by (cases s) auto
  with assms JStr show ?thesis by (simp add: count_mapping_def)
qed (use assms in simp_all)

lemma update_decks_string: "update_decks cm (JStr s # rest) n = ([], Inl TypeError)"
  by simp

lemma iterate_decks:
  assumes "map_of members ''decks'' = Some dv" "iterate dv = Inr ds"
    "update_decks cm ds n = (out, Inr r)"
  shows "ds = decks_of (JObj members)"
proof (cases dv)
  case (JArr xs)
  with assms show ?thesis by (simp add: decks_of_def)
next
  case (JObj ms)
  with assms have "ms = []" by (cases ms) (auto split: prod.splits)
  with assms JObj show ?thesis by (simp add: decks_of_def)
next
  case (JStr s)
  with assms have "s = []" by (cases s) auto
  with assms JStr show ?thesis by (simp add: decks_of_def)
qed (use assms in simp_all)

lemma raised_simps [simp]:
  "raised (raise out e) = Some e" "raised (finish out) = None"
  "written (raise out e) = []" "written (finish out) = []"
  "printed (raise out e) = out" "printed (finish out) = out"
  by (simp_all add: raise_def finish_def)

lemma updater_main_documents:
  assumes "counts_file fs = Document counts" "catalog_file fs = Document catalog"
  shows "updater_main fs =
     (case iterate counts of
        Inl e \<Rightarrow> raise [] e
      | Inr items \<Rightarrow>
          (case build_count_map Map.empty items of
             Inl e \<Rightarrow> raise [] e
           | Inr cm \<Rightarrow> reconcile cm catalog))"
  using assms by (simp add: updater_main_def split: sum.split)

lemma reconcile_returns:
  assumes "raised (reconcile cm catalog) = None"
  obtains members dv out n where
    "catalog = JObj members" "map_of members ''decks'' = Some dv"
    "iterate dv = Inr (decks_of catalog)"
    "update_decks cm (decks_of catalog) 0 = (out, Inr (map (reconciled cm) (decks_of catalog), n))"
    "n = length (filter (differs cm) (decks_of catalog))"
    "n = 0 \<Longrightarrow> out = []"
    "reconcile cm catalog =
       (if n > 0 then
          \<lparr>printed = out @ [Updated n, NextDeploy], raised = None,
           written = [catalog_with members dv (map (reconciled cm) (decks_of catalog))]\<rparr>
        else finish (out @ [AlreadyAccurate]))"
proof -
  from assms obtain members where c: "catalog = JObj members"
    by (cases catalog) (auto simp: reconcile_def)
  from assms c obtain dv where d: "map_of members ''decks'' = Some dv"
    by (cases "map_of members ''decks''") (auto simp: reconcile_def)
  from assms c d obtain ds where i: "iterate dv = Inr ds"
    by (cases "iterate dv") (auto simp: reconcile_def)
  obtain out r where u: "update_decks cm ds 0 = (out, r)" by (cases "update_decks cm ds 0")
  from assms c d i u obtain ds' n where r: "r = Inr (ds', n)"
    by (cases r) (auto simp: reconcile_def)
  have e: "ds = decks_of catalog"
    using iterate_decks [OF d i u [unfolded r]] c by simp
  note f = update_decks_reconciled [OF u [unfolded r]]
  show ?thesis
  proof (rule that [of members dv out n])
    show "catalog = JObj members" by (rule c)
    show "map_of members ''decks'' = Some dv" by (rule d)
    show "iterate dv = Inr (decks_of catalog)" using i e by simp
    show "update_decks cm (decks_of catalog) 0 =
            (out, Inr (map (reconciled cm) (decks_of catalog), n))"
      using u r f e by simp
    show "n = length (filter (differs cm) (decks_of catalog))" using f e by simp
    show "n = 0 \<Longrightarrow> out = []" using f by simp
    show "reconcile cm catalog =
       (if n > 0 then
          \<lparr>printed = out @ [Updated n, NextDeploy], raised = None,
           written = [catalog_with members dv (map (reconciled cm) (decks_of catalog))]\<rparr>
        else finish (out @ [AlreadyAccurate]))"
      using c d i u r f e by (simp add: reconcile_def)
  qed
qed

lemma updater_main_returns:
  assumes "counts_file fs = Document counts" "catalog_file fs = Document catalog"
    "raised (updater_main fs) = None"
  shows "updater_main fs = reconcile (count_mapping counts) catalog"
proof -
  note m = updater_main_documents [OF assms(1,2)]
  from assms(3) m obtain items where i: "iterate counts = Inr items"
    by (cases "iterate counts") auto
  from assms(3) m i obtain cm where b: "build_count_map Map.empty items = Inr cm"
    by (cases "build_count_map Map.empty items") auto
  show ?thesis
    using m i b count_map_of_document [OF i b] by simp
qed

lemma overwritten_fields:
  assumes "lookup_key deck = Some name" "cm name = Some (c, s)"
  shows "\<exists>members. overwritten cm deck = JObj members
    \<and> map_of members ''cardCount'' = Some c \<and> map_of members ''size'' = Some s"
proof -
  from assms(1) obtain ms where d: "deck = JObj ms"
    by (cases deck) (auto simp: lookup_key_def)
  show ?thesis
    using assms d by (simp add: overwritten_def update_conv')
qed

text \<open>
  C2. In a run over a results document and a catalog document that raises nothing, an
  entry has its \<open>cardCount\<close> and \<open>size\<close> overwritten with the mapped values and is
  counted if and only if its derived file name is in the count mapping and its stored
  card count or stored size differs from the value looked up: the written \<open>decks\<close> are
  the entries, each overwritten when it differs and as it was otherwise, and the number
  reported is the number of entries that differ; when none differs the run reports that
  the counts are accurate. The witness is the scenario of the specification: the entry of
  \<open>French.apkg\<close> goes from 1000 cards and 4000000 bytes to 1200 and 5242880, and the
  number reported is 1.
\<close>

theorem overwrite_iff_differs:
  assumes "counts_file fs = Document counts" "catalog_file fs = Document catalog"
    and "raised (updater_main fs) = None"
  shows "(0 < length (filter (differs (count_mapping counts)) (decks_of catalog)) \<longrightarrow>
      (\<exists>out after.
         printed (updater_main fs) =
           out @ [Updated (length (filter (differs (count_mapping counts)) (decks_of catalog))),
                  NextDeploy]
         \<and> written (updater_main fs) = [after]
         \<and> decks_of after =
             map (\<lambda>deck. if differs (count_mapping counts) deck
                        then overwritten (count_mapping counts) deck else deck)
               (decks_of catalog)))
    \<and> (length (filter (differs (count_mapping counts)) (decks_of catalog)) = 0 \<longrightarrow>
         updater_main fs = finish [AlreadyAccurate])
    \<and> (\<forall>deck name c s.
          lookup_key deck = Some name \<and> count_mapping counts name = Some (c, s) \<longrightarrow>
          (\<exists>members. overwritten (count_mapping counts) deck = JObj members
             \<and> map_of members ''cardCount'' = Some c \<and> map_of members ''size'' = Some s))"
proof -
  let ?cm = "count_mapping counts"
  let ?n = "length (filter (differs ?cm) (decks_of catalog))"
  have m: "updater_main fs = reconcile ?cm catalog"
    by (rule updater_main_returns [OF assms])
  with assms(3) have r: "raised (reconcile ?cm catalog) = None" by simp
  obtain members dv out n where
    c: "catalog = JObj members" and d: "map_of members ''decks'' = Some dv"
    and i: "iterate dv = Inr (decks_of catalog)"
    and u: "update_decks ?cm (decks_of catalog) 0 =
              (out, Inr (map (reconciled ?cm) (decks_of catalog), n))"
    and n: "n = ?n" and z: "n = 0 \<Longrightarrow> out = []"
    and e: "reconcile ?cm catalog =
       (if n > 0 then
          \<lparr>printed = out @ [Updated n, NextDeploy], raised = None,
           written = [catalog_with members dv (map (reconciled ?cm) (decks_of catalog))]\<rparr>
        else finish (out @ [AlreadyAccurate]))"
    by (rule reconcile_returns [OF r]) blast
  have a: "\<exists>out after.
         printed (updater_main fs) = out @ [Updated ?n, NextDeploy]
         \<and> written (updater_main fs) = [after]
         \<and> decks_of after =
             map (\<lambda>deck. if differs ?cm deck then overwritten ?cm deck else deck)
               (decks_of catalog)" if p: "0 < ?n"
  proof -
    from p have "decks_of catalog \<noteq> []" by auto
    with c d obtain xs where dv: "dv = JArr xs"
      by (cases dv) (auto simp: decks_of_def)
    have "decks_of (catalog_with members dv (map (reconciled ?cm) (decks_of catalog))) =
            map (reconciled ?cm) (decks_of catalog)"
      using dv by (simp add: decks_of_def update_conv')
    then show ?thesis
      using p n e m by (auto simp: reconciled_def [abs_def])
  qed
  have b: "updater_main fs = finish [AlreadyAccurate]" if "?n = 0"
    using that n z e m by simp
  have o: "\<forall>deck name c s.
          lookup_key deck = Some name \<and> ?cm name = Some (c, s) \<longrightarrow>
          (\<exists>members. overwritten ?cm deck = JObj members
             \<and> map_of members ''cardCount'' = Some c \<and> map_of members ''size'' = Some s)"
    using overwritten_fields by blast
  from a b o show ?thesis by blast
qed

lemma french_files_returns: "raised (updater_main french_files) = None"
  by code_simp

lemma french_files_differ:
  "length (filter (differs (count_mapping french_counts)) (decks_of french_catalog)) = 1"
  by code_simp

lemma french_decks_reconciled:
  "map (\<lambda>deck. if differs (count_mapping french_counts) deck
               then overwritten (count_mapping french_counts) deck else deck)
     (decks_of french_catalog) =
   [JObj [(''id'', JStr ''fr''), (''name'', JStr ''French''),
          (''downloadUrl'',
           JStr ''https://storage.example.com/v0/b/decks/o/French.apkg?token=x''),
          (''cardCount'', JInt 1200), (''size'', JInt 5242880),
          (''tags'', JArr [JStr ''language''])],
    JObj [(''id'', JStr ''es''), (''name'', JStr ''Spanish''),
          (''downloadUrl'',
           JStr ''https://storage.example.com/v0/b/decks/o/Spanish.apkg''),
          (''cardCount'', JInt 800), (''size'', JInt 3000000)]]"
  by code_simp

theorem overwrite_iff_differs_witness:
  "\<exists>out after.
     printed (updater_main french_files) = out @ [Updated 1, NextDeploy]
     \<and> written (updater_main french_files) = [after]
     \<and> decks_of after =
         [JObj [(''id'', JStr ''fr''), (''name'', JStr ''French''),
                (''downloadUrl'',
                 JStr ''https://storage.example.com/v0/b/decks/o/French.apkg?token=x''),
                (''cardCount'', JInt 1200), (''size'', JInt 5242880),
                (''tags'', JArr [JStr ''language''])],
          JObj [(''id'', JStr ''es''), (''name'', JStr ''Spanish''),
                (''downloadUrl'',
                 JStr ''https://storage.example.com/v0/b/decks/o/Spanish.apkg''),
                (''cardCount'', JInt 800), (''size'', JInt 3000000)]]"
proof -
  have a: "counts_file french_files = Document french_counts"
    and b: "catalog_file french_files = Document french_catalog"
    by (simp_all add: french_files_def)
  show ?thesis
    using overwrite_iff_differs [OF a b french_files_returns]
    unfolding french_files_differ french_decks_reconciled by simp
qed

lemma filter_update_other:
  "\<not> P key \<Longrightarrow> filter (\<lambda>(k, v). P k) (AList.update key x al) = filter (\<lambda>(k, v). P k) al"
  by (induction al) auto

lemma without_counts_overwritten:
  "without_counts (overwritten cm deck) = without_counts deck"
proof (cases deck)
  case (JObj ms)
  have a: "filter (\<lambda>(k, v). k \<noteq> ''cardCount'' \<and> k \<noteq> ''size'')
             (AList.update ''size'' s (AList.update ''cardCount'' c ms)) =
           filter (\<lambda>(k, v). k \<noteq> ''cardCount'' \<and> k \<noteq> ''size'') ms" for c s
    by (simp add:
        filter_update_other [of "\<lambda>k. k \<noteq> ''cardCount'' \<and> k \<noteq> ''size''" "''size''"]
        filter_update_other [of "\<lambda>k. k \<noteq> ''cardCount'' \<and> k \<noteq> ''size''" "''cardCount''"])
  show ?thesis
    using JObj a by (simp add: overwritten_def split: option.split prod.split)
qed (simp_all add: overwritten_def)

lemma without_counts_reconciled:
  "without_counts (reconciled cm deck) = without_counts deck"
  by (simp add: reconciled_def without_counts_overwritten)



lemma count_mapping_item:
  assumes "count_mapping counts name = Some (c, s)"
  obtains items members where "counts = JArr items" "JObj members \<in> set items"
    "map_of members ''file'' = Some (JStr name)"
    "map_of members ''count'' = Some c" "map_of members ''size'' = Some s"
proof (cases counts)
  case (JArr items)
  with assms have "map_of (rev (concat (map item_entry items))) name = Some (c, s)"
    by (simp add: count_mapping_def)
  then have "(name, (c, s)) \<in> set (rev (concat (map item_entry items)))"
    by (rule map_of_SomeD)
  then obtain item where i: "item \<in> set items" and e: "(name, (c, s)) \<in> set (item_entry item)"
    by auto
  from e obtain ms where m: "item = JObj ms" by (cases item) auto
  from e m have "map_of ms ''file'' = Some (JStr name)"
    "map_of ms ''count'' = Some c" "map_of ms ''size'' = Some s"
    by (auto split: option.splits json.splits)
  with JArr i m show ?thesis by (auto intro: that)
qed (use assms in \<open>simp_all add: count_mapping_def\<close>)

lemma count_mapping_dom:
  assumes "count_mapping counts name = Some v"
  shows "name \<in> set (result_files counts)"
proof -
  obtain c s where "v = (c, s)" by (cases v)
  with assms obtain items members where "counts = JArr items" "JObj members \<in> set items"
    "map_of members ''file'' = Some (JStr name)"
    by (auto elim: count_mapping_item)
  then have k: "counts = JArr items" "JObj members \<in> set items"
    "name \<in> set (record_file (JObj members))"
    by simp_all
  from k(2,3) have "\<exists>item \<in> set items. name \<in> set (record_file item)"
    by (rule bexI [rotated])
  with k(1) show ?thesis
    by (simp add: result_files_def)
qed

lemma unmatched_reconciled:
  "\<not> matches counts deck \<Longrightarrow> reconciled (count_mapping counts) deck = deck"
proof -
  assume u: "\<not> matches counts deck"
  have "\<not> differs (count_mapping counts) deck"
  proof (cases "lookup_key deck")
    case None
    then show ?thesis by (simp add: differs_def)
  next
    case (Some name)
    with u have "name \<notin> set (result_files counts)" by (simp add: matches_def)
    then have "count_mapping counts name = None"
      using count_mapping_dom [of counts name] by (cases "count_mapping counts name") auto
    with Some show ?thesis by (simp add: differs_def)
  qed
  then show ?thesis by (simp add: reconciled_def)
qed

lemma written_cases:
  "written (updater_main fs) = []
   \<or> (\<exists>counts catalog. counts_file fs = Document counts \<and> catalog_file fs = Document catalog
        \<and> raised (updater_main fs) = None
        \<and> 0 < length (filter (differs (count_mapping counts)) (decks_of catalog)))"
proof (cases "written (updater_main fs) = []")
  case True
  then show ?thesis by simp
next
  case False
  then obtain counts where a: "counts_file fs = Document counts"
    by (cases "counts_file fs") (auto simp: updater_main_def split: if_splits)
  from False a obtain catalog where b: "catalog_file fs = Document catalog"
    by (cases "catalog_file fs") (auto simp: updater_main_def split: if_splits sum.splits)
  have r: "raised (updater_main fs) = None"
    using False updater_main_documents [OF a b]
    by (auto simp: reconcile_def split: sum.splits json.splits option.splits prod.splits if_splits)
  have m: "updater_main fs = reconcile (count_mapping counts) catalog"
    by (rule updater_main_returns [OF a b r])
  obtain members dv out n where
    "catalog = JObj members" "map_of members ''decks'' = Some dv"
    "iterate dv = Inr (decks_of catalog)"
    "update_decks (count_mapping counts) (decks_of catalog) 0 =
       (out, Inr (map (reconciled (count_mapping counts)) (decks_of catalog), n))"
    and n: "n = length (filter (differs (count_mapping counts)) (decks_of catalog))"
    and "n = 0 \<Longrightarrow> out = []"
    and e: "reconcile (count_mapping counts) catalog =
       (if n > 0 then
          \<lparr>printed = out @ [Updated n, NextDeploy], raised = None,
           written = [catalog_with members dv
                        (map (reconciled (count_mapping counts)) (decks_of catalog))]\<rparr>
        else finish (out @ [AlreadyAccurate]))"
    by (rule reconcile_returns [OF r [unfolded m]]) blast
  from False m e n have "0 < length (filter (differs (count_mapping counts)) (decks_of catalog))"
    by (auto split: if_splits)
  with a b r show ?thesis by blast
qed

lemma written_document:
  assumes "counts_file fs = Document counts" "catalog_file fs = Document catalog"
    and "written (updater_main fs) \<noteq> []"
  shows "\<exists>after. written (updater_main fs) = [after]
    \<and> raised (updater_main fs) = None
    \<and> without_decks after = without_decks catalog
    \<and> decks_of after = map (reconciled (count_mapping counts)) (decks_of catalog)"
proof -
  let ?cm = "count_mapping counts"
  from written_cases [of fs] assms have r: "raised (updater_main fs) = None" by auto
  have m: "updater_main fs = reconcile ?cm catalog"
    by (rule updater_main_returns [OF assms(1,2) r])
  obtain members dv out n where
    c: "catalog = JObj members" and d: "map_of members ''decks'' = Some dv"
    and "iterate dv = Inr (decks_of catalog)"
    and "update_decks ?cm (decks_of catalog) 0 =
       (out, Inr (map (reconciled ?cm) (decks_of catalog), n))"
    and n: "n = length (filter (differs ?cm) (decks_of catalog))"
    and "n = 0 \<Longrightarrow> out = []"
    and e: "reconcile ?cm catalog =
       (if n > 0 then
          \<lparr>printed = out @ [Updated n, NextDeploy], raised = None,
           written = [catalog_with members dv (map (reconciled ?cm) (decks_of catalog))]\<rparr>
        else finish (out @ [AlreadyAccurate]))"
    by (rule reconcile_returns [OF r [unfolded m]]) blast
  from assms(3) m e have p: "0 < n" by (auto split: if_splits)
  with n have "decks_of catalog \<noteq> []" by auto
  with c d obtain xs where dv: "dv = JArr xs"
    by (cases dv) (auto simp: decks_of_def)
  let ?after = "catalog_with members dv (map (reconciled ?cm) (decks_of catalog))"
  have w: "written (updater_main fs) = [?after]" using m e p by simp
  have k: "decks_of ?after = map (reconciled ?cm) (decks_of catalog)"
    using dv by (simp add: decks_of_def update_conv')
  have f: "without_decks ?after = without_decks catalog"
    using dv c by (simp add: filter_update_other [of "\<lambda>k. k \<noteq> ''decks''" "''decks''"])
  from w r f k show ?thesis by blast
qed

lemma files_after_unwritten: "written r = [] \<Longrightarrow> files_after fs r = fs"
  by (simp add: files_after_def)

lemma files_after_written:
  "written r = [doc] \<Longrightarrow> files_after fs r = fs\<lparr>catalog_file := Document doc\<rparr>"
  by (simp add: files_after_def)

text \<open>
  C1. For every results document and catalog document, after a run of the Updater the
  results document is as it was, and the catalog document is a document that agrees with
  the one before in everything but its \<open>decks\<close>; its \<open>decks\<close> are as many as before, and
  the entry at each position agrees with the entry that was there in every field other
  than \<open>cardCount\<close> and \<open>size\<close> (the same fields with the same values in the same
  order), so no entry is created, deleted or moved; an entry whose derived file name is
  the file name of no record of the results document is unchanged. When one of the two
  files holds no document, the run changes no file.
\<close>

theorem catalog_frame:
  "(\<forall>counts before.
      counts_file fs = Document counts \<and> catalog_file fs = Document before \<longrightarrow>
      counts_file (files_after fs (updater_main fs)) = Document counts
      \<and> (\<exists>after. catalog_file (files_after fs (updater_main fs)) = Document after
            \<and> without_decks after = without_decks before
            \<and> length (decks_of after) = length (decks_of before)
            \<and> (\<forall>i < length (decks_of before).
                  without_counts (decks_of after ! i) = without_counts (decks_of before ! i)
                  \<and> (\<not> matches counts (decks_of before ! i) \<longrightarrow>
                       decks_of after ! i = decks_of before ! i))))
   \<and> ((\<forall>counts. counts_file fs \<noteq> Document counts)
        \<or> (\<forall>before. catalog_file fs \<noteq> Document before) \<longrightarrow>
       files_after fs (updater_main fs) = fs)"
proof (intro conjI allI impI)
  fix counts before
  assume a: "counts_file fs = Document counts \<and> catalog_file fs = Document before"
  show "counts_file (files_after fs (updater_main fs)) = Document counts"
    using a by (simp add: files_after_def split: list.split)
  show "\<exists>after. catalog_file (files_after fs (updater_main fs)) = Document after
            \<and> without_decks after = without_decks before
            \<and> length (decks_of after) = length (decks_of before)
            \<and> (\<forall>i < length (decks_of before).
                  without_counts (decks_of after ! i) = without_counts (decks_of before ! i)
                  \<and> (\<not> matches counts (decks_of before ! i) \<longrightarrow>
                       decks_of after ! i = decks_of before ! i))"
  proof (cases "written (updater_main fs) = []")
    case True
    then have "files_after fs (updater_main fs) = fs" by (rule files_after_unwritten)
    with a show ?thesis by simp
  next
    case False
    from a have c: "counts_file fs = Document counts" and b: "catalog_file fs = Document before"
      by simp_all
    from written_document [OF c b False] obtain after where
      w: "written (updater_main fs) = [after]"
      and f: "without_decks after = without_decks before"
      and d: "decks_of after = map (reconciled (count_mapping counts)) (decks_of before)"
      by blast
    have "catalog_file (files_after fs (updater_main fs)) = Document after"
      using files_after_written [OF w, of fs] by simp
    moreover have "\<forall>i < length (decks_of before).
        without_counts (decks_of after ! i) = without_counts (decks_of before ! i)
        \<and> (\<not> matches counts (decks_of before ! i) \<longrightarrow>
             decks_of after ! i = decks_of before ! i)"
      using d by (simp add: without_counts_reconciled unmatched_reconciled)
    moreover have "length (decks_of after) = length (decks_of before)"
      using d by simp
    ultimately show ?thesis using f by blast
  qed
next
  assume "(\<forall>counts. counts_file fs \<noteq> Document counts)
        \<or> (\<forall>before. catalog_file fs \<noteq> Document before)"
  with written_cases [of fs] have "written (updater_main fs) = []" by auto
  then show "files_after fs (updater_main fs) = fs" by (rule files_after_unwritten)
qed


lemma french_catalog_parts:
  "without_decks french_catalog = JObj [(''version'', JInt 2)]"
  "length (decks_of french_catalog) = 2"
  "without_counts (decks_of french_catalog ! 0) =
     JObj [(''id'', JStr ''fr''), (''name'', JStr ''French''),
           (''downloadUrl'',
            JStr ''https://storage.example.com/v0/b/decks/o/French.apkg?token=x''),
           (''tags'', JArr [JStr ''language''])]"
  "decks_of french_catalog ! 1 =
     JObj [(''id'', JStr ''es''), (''name'', JStr ''Spanish''),
           (''downloadUrl'',
            JStr ''https://storage.example.com/v0/b/decks/o/Spanish.apkg''),
           (''cardCount'', JInt 800), (''size'', JInt 3000000)]"
  "\<not> matches french_counts (decks_of french_catalog ! 1)"
  by code_simp+

theorem catalog_frame_witness:
  "\<exists>after. catalog_file (files_after french_files (updater_main french_files)) = Document after
     \<and> without_decks after = JObj [(''version'', JInt 2)]
     \<and> length (decks_of after) = 2
     \<and> without_counts (decks_of after ! 0) =
         JObj [(''id'', JStr ''fr''), (''name'', JStr ''French''),
               (''downloadUrl'',
                JStr ''https://storage.example.com/v0/b/decks/o/French.apkg?token=x''),
               (''tags'', JArr [JStr ''language''])]
     \<and> decks_of after ! 1 =
         JObj [(''id'', JStr ''es''), (''name'', JStr ''Spanish''),
               (''downloadUrl'',
                JStr ''https://storage.example.com/v0/b/decks/o/Spanish.apkg''),
               (''cardCount'', JInt 800), (''size'', JInt 3000000)]"
proof -
  have a: "counts_file french_files = Document french_counts
           \<and> catalog_file french_files = Document french_catalog"
    by (simp add: french_files_def)
  from catalog_frame [of french_files] a obtain after where
    c: "catalog_file (files_after french_files (updater_main french_files)) = Document after"
    and d: "without_decks after = without_decks french_catalog"
    and l: "length (decks_of after) = length (decks_of french_catalog)"
    and e: "\<forall>i < length (decks_of french_catalog).
              without_counts (decks_of after ! i) = without_counts (decks_of french_catalog ! i)
              \<and> (\<not> matches french_counts (decks_of french_catalog ! i) \<longrightarrow>
                   decks_of after ! i = decks_of french_catalog ! i)"
    by blast
  from e have "without_counts (decks_of after ! 0) = without_counts (decks_of french_catalog ! 0)"
    and "decks_of after ! 1 = decks_of french_catalog ! 1"
    using french_catalog_parts(2,5) by simp_all
  with c d l show ?thesis
    unfolding french_catalog_parts by blast
qed

text \<open>
  C6. When the results document is missing the Updater reports that, and when the
  catalog document is missing it reports that; in both cases it returns without raising
  and without writing, and the files are as they were. In every run the catalog document
  is written at most once, and only by a run that raises nothing, with all entries
  reconciled: the document written agrees with the catalog but for its \<open>decks\<close>, which
  are the reconciled entries. So after a run the catalog is as it was or is that
  document.
\<close>

theorem single_write:
  "(counts_file fs = Absent \<longrightarrow>
      updater_main fs = finish [CountsNotFound, RunCounterFirst]
      \<and> files_after fs (updater_main fs) = fs)
   \<and> (counts_file fs \<noteq> Absent \<and> catalog_file fs = Absent \<longrightarrow>
      updater_main fs = finish [CatalogNotFound]
      \<and> files_after fs (updater_main fs) = fs)
   \<and> length (written (updater_main fs)) \<le> 1
   \<and> (\<forall>doc. written (updater_main fs) = [doc] \<longrightarrow>
        raised (updater_main fs) = None
        \<and> (\<exists>counts catalog.
              counts_file fs = Document counts \<and> catalog_file fs = Document catalog
              \<and> without_decks doc = without_decks catalog
              \<and> decks_of doc = map (reconciled (count_mapping counts)) (decks_of catalog)))
   \<and> (files_after fs (updater_main fs) = fs
       \<or> (\<exists>doc. written (updater_main fs) = [doc]
             \<and> files_after fs (updater_main fs) = fs\<lparr>catalog_file := Document doc\<rparr>))"
proof -
  have a: "updater_main fs = finish [CountsNotFound, RunCounterFirst]
      \<and> files_after fs (updater_main fs) = fs" if "counts_file fs = Absent"
    using that by (simp add: updater_main_def files_after_unwritten)
  have b: "updater_main fs = finish [CatalogNotFound]
      \<and> files_after fs (updater_main fs) = fs"
    if "counts_file fs \<noteq> Absent \<and> catalog_file fs = Absent"
    using that by (simp add: updater_main_def files_after_unwritten)
  have w: "written (updater_main fs) = []
    \<or> (\<exists>doc counts catalog. written (updater_main fs) = [doc]
          \<and> raised (updater_main fs) = None
          \<and> counts_file fs = Document counts \<and> catalog_file fs = Document catalog
          \<and> without_decks doc = without_decks catalog
          \<and> decks_of doc = map (reconciled (count_mapping counts)) (decks_of catalog))"
  proof (cases "written (updater_main fs) = []")
    case True
    then show ?thesis by simp
  next
    case False
    with written_cases [of fs] obtain counts catalog where
      c: "counts_file fs = Document counts" and d: "catalog_file fs = Document catalog"
      by blast
    from written_document [OF c d False] c d show ?thesis by blast
  qed
  have c: "length (written (updater_main fs)) \<le> 1"
    using w by auto
  have d: "\<forall>doc. written (updater_main fs) = [doc] \<longrightarrow>
        raised (updater_main fs) = None
        \<and> (\<exists>counts catalog.
              counts_file fs = Document counts \<and> catalog_file fs = Document catalog
              \<and> without_decks doc = without_decks catalog
              \<and> decks_of doc = map (reconciled (count_mapping counts)) (decks_of catalog))"
    using w by auto
  have e: "files_after fs (updater_main fs) = fs
       \<or> (\<exists>doc. written (updater_main fs) = [doc]
             \<and> files_after fs (updater_main fs) = fs\<lparr>catalog_file := Document doc\<rparr>)"
    using w files_after_unwritten [of "updater_main fs" fs] files_after_written [of "updater_main fs" _ fs]
    by blast
  from a b c d e show ?thesis by blast
qed

theorem single_write_witness:
  "updater_main \<lparr>counts_file = Absent, catalog_file = Document french_catalog\<rparr> =
     finish [CountsNotFound, RunCounterFirst]
   \<and> updater_main \<lparr>counts_file = Document french_counts, catalog_file = Absent\<rparr> =
     finish [CatalogNotFound]
   \<and> files_after \<lparr>counts_file = Document french_counts, catalog_file = Absent\<rparr>
       (updater_main \<lparr>counts_file = Document french_counts, catalog_file = Absent\<rparr>) =
     \<lparr>counts_file = Document french_counts, catalog_file = Absent\<rparr>
   \<and> length (written (updater_main french_files)) \<le> 1"
proof -
  have a: "updater_main \<lparr>counts_file = Absent, catalog_file = Document french_catalog\<rparr> =
     finish [CountsNotFound, RunCounterFirst]"
  proof -
    have h: "counts_file \<lparr>counts_file = Absent, catalog_file = Document french_catalog\<rparr> = Absent"
      by simp
    from single_write [of "\<lparr>counts_file = Absent, catalog_file = Document french_catalog\<rparr>"] h
    show ?thesis by blast
  qed
  have b: "updater_main \<lparr>counts_file = Document french_counts, catalog_file = Absent\<rparr> =
     finish [CatalogNotFound]
     \<and> files_after \<lparr>counts_file = Document french_counts, catalog_file = Absent\<rparr>
       (updater_main \<lparr>counts_file = Document french_counts, catalog_file = Absent\<rparr>) =
     \<lparr>counts_file = Document french_counts, catalog_file = Absent\<rparr>"
  proof -
    have h: "counts_file \<lparr>counts_file = Document french_counts, catalog_file = Absent\<rparr> \<noteq> Absent
      \<and> catalog_file \<lparr>counts_file = Document french_counts, catalog_file = Absent\<rparr> = Absent"
      by simp
    from single_write [of "\<lparr>counts_file = Document french_counts, catalog_file = Absent\<rparr>"] h
    show ?thesis by blast
  qed
  have c: "length (written (updater_main french_files)) \<le> 1"
    using single_write [of french_files] by blast
  from a b c show ?thesis by blast
qed


lemma py_eq_integer: "py_eq (JInt i) (JInt i)"
  by simp


















end
